theory Spec2Isabelle
  imports Complex_Main "HOL-Library.Log_Nat"
begin

section \<open>Numbers and errors of the Python program\<close>

text \<open>
  The program \<^verbatim>\<open>tune2youtube.py\<close> computes with Python numbers: integers (the video
  width and height, the rounding factor) and floats (the probed cover dimensions and the
  aspect ratios derived from them). In the embedding below both are rationals: \<^verbatim>\<open>/\<close> is
  exact division (Python 3's true division; Python 2's integer division gives the same
  \<^verbatim>\<open>int(val / factor)\<close> whenever the value is not negative), and a division by zero is
  the error value \<open>ZeroDivisionError\<close>. This embedding leaves out the rounding of
  binary64 arithmetic. A second embedding of the same lines, further down, keeps it:
  every float operation there is rounded to the nearest binary64 value. The two are
  compared at the end of the geometry section: they agree on every concrete input that a
  theorem below evaluates, and they differ on inputs where a quotient or product is not
  exact and an assertion or a rounding tie depends on the last bit.
\<close>

datatype py_error =
    ZeroDivisionError
  | AssertionError
  | KeyError
  | IndexError
  | CalledProcessError

text \<open>Python's \<^verbatim>\<open>int(x)\<close> on a number: truncation toward zero.\<close>

definition py_int :: "rat \<Rightarrow> int" where
  "py_int q = (if 0 \<le> q then \<lfloor>q\<rfloor> else \<lceil>q\<rceil>)"

section \<open>The rounding primitive\<close>

text \<open>
  \<^verbatim>\<open>
  def scaling_round(val, factor=16, max_value=0):
      vsc = int(val / factor)
      vmin = vsc * factor
      vmax = (vsc + 1) * factor
      if (max_value and vmax > max_value) or abs(val - vmin) < abs(val - vmax):
          return vmin
      return vmax
  \<close>
  The factor is an integer (the docstring promises an integer result), the value and the
  bound are numbers. A bound of 0 is falsy, so \<^verbatim>\<open>max_value and ...\<close> is false for it.
\<close>

definition scaling_round :: "rat \<Rightarrow> int \<Rightarrow> rat \<Rightarrow> py_error + int" where
  "scaling_round val factor max_value =
     (if factor = 0 then Inl ZeroDivisionError
      else
        let vsc = py_int (val / of_int factor);
            vmin = vsc * factor;
            vmax = (vsc + 1) * factor
        in if (max_value \<noteq> 0 \<and> of_int vmax > max_value)
              \<or> \<bar>val - of_int vmin\<bar> < \<bar>val - of_int vmax\<bar>
           then Inr vmin
           else Inr vmax)"

section \<open>Formatting and string helpers\<close>

text \<open>
  Python's \<^verbatim>\<open>"%d" % n\<close> for an integer: its decimal digits, with a minus sign for a
  negative one.
\<close>

definition digit_char :: "nat \<Rightarrow> char" where
  "digit_char d = ''0123456789'' ! d"

function nat_digits :: "nat \<Rightarrow> string" where
  "nat_digits n =
     (if n < 10 then [digit_char n] else nat_digits (n div 10) @ [digit_char (n mod 10)])"
  by pat_completeness auto
termination
  by (relation "measure (\<lambda>n. n)") auto

declare nat_digits.simps [simp del]

definition str_int :: "int \<Rightarrow> string" where
  "str_int i = (if i < 0 then CHR ''-'' # nat_digits (nat (- i)) else nat_digits (nat i))"

text \<open>\<^verbatim>\<open>s.endswith(suffix)\<close>.\<close>

definition endswith :: "string \<Rightarrow> string \<Rightarrow> bool" where
  "endswith s suffix =
     (length suffix \<le> length s \<and> drop (length s - length suffix) s = suffix)"

text \<open>
  \<^verbatim>\<open>os.path.basename\<close> and \<^verbatim>\<open>os.path.splitext\<close> of the standard library, in their POSIX
  form: the base name is what follows the last \<^verbatim>\<open>/\<close>; the extension starts at the last
  dot of the base name, unless only dots (or nothing) stand before that dot, in which
  case there is no extension.
\<close>

definition basename :: "string \<Rightarrow> string" where
  "basename p = rev (takeWhile (\<lambda>c. c \<noteq> CHR ''/'') (rev p))"

definition splitext :: "string \<Rightarrow> string \<times> string" where
  "splitext p =
     (let b = basename p;
          d = take (length p - length b) p;
          ext = rev (takeWhile (\<lambda>c. c \<noteq> CHR ''.'') (rev b));
          stem = take (length b - length ext - 1) b
      in if List.member b (CHR ''.'') \<and> list_ex (\<lambda>c. c \<noteq> CHR ''.'') stem
         then (d @ stem, CHR ''.'' # ext)
         else (p, []))"

section \<open>The geometry of the cover image\<close>

text \<open>
  The external tools are parameters of the model. \<open>probe_file\<close> gives the document that
  \<^verbatim>\<open>ffprobe\<close> prints for a file, as \<^verbatim>\<open>json.loads\<close> returns it, or the error raised on
  the way: a dictionary whose key \<^verbatim>\<open>streams\<close> holds the list of stream entries, each a
  dictionary from field names to numbers (what \<^verbatim>\<open>float\<close> makes of the field).
  \<open>check_call\<close> tells whether the composition tool exits with status zero on an
  argument list (\<^verbatim>\<open>subprocess.check_call\<close> raises \<open>CalledProcessError\<close> otherwise).
  \<open>FFMPEG_PATH\<close> is the module constant after line 16: empty, or the directory of the
  tools with its separator.
\<close>

type_synonym stream_info = "string \<rightharpoonup> rat"

type_synonym probe_doc = "string \<rightharpoonup> stream_info list"

record env =
  FFMPEG_PATH :: string
  probe_file :: "string \<Rightarrow> py_error + probe_doc"
  check_call :: "string list \<Rightarrow> bool"

text \<open>
  Lines 78 to 87 of \<^verbatim>\<open>get_cover_filter_string\<close>: the aspect ratios, the choice of the
  axis to fit (\<open>fits_width\<close> is the test of line 80), and the two assertions on the
  unrounded size.
  \<^verbatim>\<open>
  cover_aspect = cover_width / cover_height
  video_aspect = float(video_width) / float(video_height)
  if cover_width >= cover_height and cover_aspect > video_aspect:
      image_width = video_width
      image_height = image_width / cover_aspect
  else:
      image_height = video_height
      image_width = image_height * cover_aspect
  assert image_height <= video_height
  assert image_width <= video_width
  \<close>
\<close>

definition fits_width :: "rat \<Rightarrow> rat \<Rightarrow> int \<Rightarrow> int \<Rightarrow> bool" where
  "fits_width cover_width cover_height video_width video_height =
     (cover_width \<ge> cover_height
      \<and> cover_width / cover_height > of_int video_width / of_int video_height)"

definition fit_unrounded :: "rat \<Rightarrow> rat \<Rightarrow> int \<Rightarrow> int \<Rightarrow> py_error + rat \<times> rat" where
  "fit_unrounded cover_width cover_height video_width video_height =
     (if cover_height = 0 then Inl ZeroDivisionError
      else if video_height = 0 then Inl ZeroDivisionError
      else
        let cover_aspect = cover_width / cover_height in
        case (if fits_width cover_width cover_height video_width video_height
              then (if cover_aspect = 0 then Inl ZeroDivisionError
                    else Inr (of_int video_width, of_int video_width / cover_aspect))
              else Inr (of_int video_height * cover_aspect, of_int video_height)) of
          Inl e \<Rightarrow> Inl e
        | Inr (image_width, image_height) \<Rightarrow>
            if \<not> image_height \<le> of_int video_height then Inl AssertionError
            else if \<not> image_width \<le> of_int video_width then Inl AssertionError
            else Inr (image_width, image_height))"

text \<open>
  Lines 88 and 89: both dimensions are rounded with the default factor 16 and the default
  bound 0.
\<close>

definition fit_rounded :: "rat \<Rightarrow> rat \<Rightarrow> int \<Rightarrow> int \<Rightarrow> py_error + int \<times> int" where
  "fit_rounded cover_width cover_height video_width video_height =
     (case fit_unrounded cover_width cover_height video_width video_height of
        Inl e \<Rightarrow> Inl e
      | Inr (w, h) \<Rightarrow>
          (case scaling_round w 16 0 of
             Inl e \<Rightarrow> Inl e
           | Inr image_width \<Rightarrow>
               (case scaling_round h 16 0 of
                  Inl e \<Rightarrow> Inl e
                | Inr image_height \<Rightarrow> Inr (image_width, image_height))))"

text \<open>
  Lines 91 to 96: the filter string. An offset is \<^verbatim>\<open>(video_dim - image_dim) / 2\<close>
  printed with \<^verbatim>\<open>%d\<close>, which truncates a float toward zero. (Python 2 divides the two
  integers with a floor instead; the two agree unless the difference is negative and odd.)
\<close>

definition pad_offset :: "int \<Rightarrow> int \<Rightarrow> int" where
  "pad_offset video_dim image_dim = py_int ((of_int video_dim - of_int image_dim) / 2)"

definition filter_string :: "int \<Rightarrow> int \<Rightarrow> int \<Rightarrow> int \<Rightarrow> string" where
  "filter_string video_width video_height image_width image_height =
     (let scale_filter = ''scale='' @ str_int image_width @ '':'' @ str_int image_height;
          pad_filter = ''pad='' @ str_int video_width @ '':'' @ str_int video_height
            @ '':'' @ str_int (pad_offset video_width image_width)
            @ '':'' @ str_int (pad_offset video_height image_height)
      in scale_filter @ '','' @ pad_filter)"

definition get_cover_filter_string :: "env \<Rightarrow> string \<Rightarrow> int \<Rightarrow> int \<Rightarrow> py_error + string" where
  "get_cover_filter_string e cover_filename video_width video_height =
     (case probe_file e cover_filename of
        Inl err \<Rightarrow> Inl err
      | Inr doc \<Rightarrow>
          (case doc ''streams'' of
             None \<Rightarrow> Inl KeyError
           | Some [] \<Rightarrow> Inl IndexError
           | Some (cover_stream_info # _) \<Rightarrow>
               (case cover_stream_info ''width'' of
                  None \<Rightarrow> Inl KeyError
                | Some cover_width \<Rightarrow>
                    (case cover_stream_info ''height'' of
                       None \<Rightarrow> Inl KeyError
                     | Some cover_height \<Rightarrow>
                         (case fit_rounded cover_width cover_height video_width video_height of
                            Inl err \<Rightarrow> Inl err
                          | Inr (image_width, image_height) \<Rightarrow>
                              Inr (filter_string video_width video_height
                                     image_width image_height))))))"

section \<open>The composition invoker\<close>

text \<open>
  \<open>ffmpeg_args\<close> is the argument list that \<^verbatim>\<open>process\<close> hands to
  \<^verbatim>\<open>subprocess.check_call\<close> (lines 117 to 145).
\<close>

definition ffmpeg_args ::
  "string \<Rightarrow> string \<Rightarrow> string \<Rightarrow> int \<Rightarrow> int \<Rightarrow> string \<Rightarrow> string \<Rightarrow> string list" where
  "ffmpeg_args ffmpeg_path cover_path audio_path width height filter_str output_path =
     (let needs_transcode = \<not> endswith audio_path ''.mp3'' in
      [ffmpeg_path @ ''ffmpeg'',
       ''-loop'', ''1'',
       ''-i'', cover_path,
       ''-i'', audio_path,
       ''-r:v'', ''10'',
       ''-s:v'', str_int width @ ''x'' @ str_int height,
       ''-c:v'', ''libx264'',
       ''-crf:v'', ''22'',
       ''-filter:v'', filter_str,
       ''-pix_fmt'', ''yuv420p'']
      @ (if needs_transcode
         then [''-c:a'', ''aac'', ''-strict'', ''experimental'', ''-b:a'', ''320k'']
         else [''-c:a'', ''copy''])
      @ [''-shortest'', output_path])"

text \<open>
  \<^verbatim>\<open>if not output_path\<close> holds for \<^verbatim>\<open>None\<close> and for the empty string.
\<close>

definition default_output_path :: "string \<Rightarrow> string" where
  "default_output_path audio_path =
     (let audio_basename = fst (splitext (basename audio_path)) in audio_basename @ ''.mp4'')"

definition process :: "env \<Rightarrow> string \<Rightarrow> string \<Rightarrow> string option \<Rightarrow> int \<Rightarrow> int \<Rightarrow> py_error + string" where
  "process e cover_path audio_path output_path width height =
     (let output_path' =
            (case output_path of
               None \<Rightarrow> default_output_path audio_path
             | Some p \<Rightarrow> if p = [] then default_output_path audio_path else p)
      in case get_cover_filter_string e cover_path width height of
           Inl err \<Rightarrow> Inl err
         | Inr filter_str \<Rightarrow>
             if check_call e (ffmpeg_args (FFMPEG_PATH e) cover_path audio_path width height
                                filter_str output_path')
             then Inr output_path'
             else Inl CalledProcessError)"

section \<open>The same lines in binary64 arithmetic\<close>

text \<open>
  The nearest binary64 value to a rational, ties to the even significand: the value is
  scaled to a significand of 53 bits, rounded, and scaled back. The exponent is not
  bounded, so there is no overflow and there are no subnormal numbers; no pixel dimension
  comes near either.
\<close>

definition round_half_even :: "rat \<Rightarrow> int" where
  "round_half_even q =
     (let n = \<lfloor>q\<rfloor>; r = q - of_int n
      in if r < 1 / 2 then n else if 1 / 2 < r then n + 1 else if even n then n else n + 1)"

definition floor_log2 :: "rat \<Rightarrow> int" where
  "floor_log2 q =
     (let k = bitlen (fst (quotient_of q)) - bitlen (snd (quotient_of q))
      in if 2 powi k \<le> q then k else k - 1)"

definition binary64 :: "rat \<Rightarrow> rat" where
  "binary64 q =
     (if q = 0 then 0
      else let u = 2 powi (floor_log2 \<bar>q\<bar> - 52)
           in of_int (round_half_even (q / u)) * u)"

text \<open>
  A Python 3 number is an integer or a float. Arithmetic on two integers is exact, except
  that \<^verbatim>\<open>/\<close> gives the float nearest to the quotient; arithmetic with a float converts
  an integer operand to a float first and rounds the result; comparisons are exact.
\<close>

datatype py_num = PyInt int | PyFloat rat

fun num_val :: "py_num \<Rightarrow> rat" where
  "num_val (PyInt i) = of_int i"
| "num_val (PyFloat x) = x"

fun to_float :: "py_num \<Rightarrow> rat" where
  "to_float (PyInt i) = binary64 (of_int i)"
| "to_float (PyFloat x) = x"

text \<open>The value of \<^verbatim>\<open>a / b\<close> for \<open>b\<close> other than zero, and of \<^verbatim>\<open>a - b\<close> for an integer \<open>b\<close>.\<close>

fun py_truediv :: "py_num \<Rightarrow> py_num \<Rightarrow> rat" where
  "py_truediv (PyInt a) (PyInt b) = binary64 (of_int a / of_int b)"
| "py_truediv a b = binary64 (to_float a / to_float b)"

fun py_sub_int :: "py_num \<Rightarrow> int \<Rightarrow> rat" where
  "py_sub_int (PyInt a) b = of_int (a - b)"
| "py_sub_int (PyFloat x) b = binary64 (x - binary64 (of_int b))"

text \<open>Lines 54 to 59 (\<^verbatim>\<open>scaling_round\<close>), every float operation rounded.\<close>

definition scaling_round_binary64 :: "py_num \<Rightarrow> int \<Rightarrow> py_num \<Rightarrow> py_error + int" where
  "scaling_round_binary64 val factor max_value =
     (if factor = 0 then Inl ZeroDivisionError
      else
        let vsc = py_int (py_truediv val (PyInt factor));
            vmin = vsc * factor;
            vmax = (vsc + 1) * factor
        in if (num_val max_value \<noteq> 0 \<and> of_int vmax > num_val max_value)
              \<or> \<bar>py_sub_int val vmin\<bar> < \<bar>py_sub_int val vmax\<bar>
           then Inr vmin
           else Inr vmax)"

text \<open>
  Lines 78 to 87, every float operation rounded. The cover dimensions are floats already;
  the fitted axis keeps the integer \<^verbatim>\<open>video_width\<close> or \<^verbatim>\<open>video_height\<close>, the other
  axis is a float.
\<close>

definition fit_unrounded_binary64 ::
  "rat \<Rightarrow> rat \<Rightarrow> int \<Rightarrow> int \<Rightarrow> py_error + py_num \<times> py_num" where
  "fit_unrounded_binary64 cover_width cover_height video_width video_height =
     (if cover_height = 0 then Inl ZeroDivisionError
      else if video_height = 0 then Inl ZeroDivisionError
      else
        let cover_aspect = binary64 (cover_width / cover_height);
            video_aspect =
              binary64 (binary64 (of_int video_width) / binary64 (of_int video_height))
        in
        case (if cover_width \<ge> cover_height \<and> cover_aspect > video_aspect
              then (if cover_aspect = 0 then Inl ZeroDivisionError
                    else Inr (PyInt video_width,
                              PyFloat (binary64 (binary64 (of_int video_width) / cover_aspect))))
              else Inr (PyFloat (binary64 (binary64 (of_int video_height) * cover_aspect)),
                        PyInt video_height)) of
          Inl e \<Rightarrow> Inl e
        | Inr (image_width, image_height) \<Rightarrow>
            if \<not> num_val image_height \<le> of_int video_height then Inl AssertionError
            else if \<not> num_val image_width \<le> of_int video_width then Inl AssertionError
            else Inr (image_width, image_height))"

text \<open>Lines 88 and 89.\<close>

definition fit_rounded_binary64 :: "rat \<Rightarrow> rat \<Rightarrow> int \<Rightarrow> int \<Rightarrow> py_error + int \<times> int" where
  "fit_rounded_binary64 cover_width cover_height video_width video_height =
     (case fit_unrounded_binary64 cover_width cover_height video_width video_height of
        Inl e \<Rightarrow> Inl e
      | Inr (w, h) \<Rightarrow>
          (case scaling_round_binary64 w 16 (PyInt 0) of
             Inl e \<Rightarrow> Inl e
           | Inr image_width \<Rightarrow>
               (case scaling_round_binary64 h 16 (PyInt 0) of
                  Inl e \<Rightarrow> Inl e
                | Inr image_height \<Rightarrow> Inr (image_width, image_height))))"

section \<open>A fixture\<close>

text \<open>
  A fixture for the concrete runs: the probe reports one stream of the given width and
  height for every file, the tools are on the search path, and the composition tool
  exits with status zero.
\<close>

definition still_env :: "rat \<Rightarrow> rat \<Rightarrow> env" where
  "still_env w h =
     \<lparr>FFMPEG_PATH = [],
      probe_file = (\<lambda>_. Inr [''streams'' \<mapsto> [[''width'' \<mapsto> w, ''height'' \<mapsto> h]]]),
      check_call = (\<lambda>_. True)\<rparr>"

section \<open>Properties of the rounding primitive\<close>

lemma py_int_nonneg: "0 \<le> q \<Longrightarrow> py_int q = \<lfloor>q\<rfloor>"
  by (simp add: py_int_def)

lemma bracket_lower:
  fixes v :: rat and g :: int
  assumes "0 < g"
  shows "of_int (\<lfloor>v / of_int g\<rfloor> * g) \<le> v"
  using floor_divide_lower [of "of_int g :: rat" v] assms by simp

lemma bracket_upper:
  fixes v :: rat and g :: int
  assumes "0 < g"
  shows "v < of_int (\<lfloor>v / of_int g\<rfloor> * g + g)"
  using floor_divide_upper [of "of_int g :: rat" v] assms by (simp add: algebra_simps)

text \<open>
  For a value that is not negative, \<^verbatim>\<open>int\<close> is the floor, both absolute values open,
  and the function is a choice between the two bracketing multiples.
\<close>

lemma scaling_round_nonneg_eq:
  fixes v :: rat and g :: int
  assumes "0 \<le> v" "0 < g"
  shows "scaling_round v g m =
     Inr (if (m \<noteq> 0 \<and> of_int (\<lfloor>v / of_int g\<rfloor> * g + g) > m)
              \<or> v - of_int (\<lfloor>v / of_int g\<rfloor> * g) < of_int (\<lfloor>v / of_int g\<rfloor> * g + g) - v
          then \<lfloor>v / of_int g\<rfloor> * g else \<lfloor>v / of_int g\<rfloor> * g + g)"
proof -
  have q: "0 \<le> v / of_int g" using assms by simp
  have lo: "\<bar>v - of_int (\<lfloor>v / of_int g\<rfloor> * g)\<bar> = v - of_int (\<lfloor>v / of_int g\<rfloor> * g)"
    using bracket_lower [OF assms(2), of v] by simp
  have up: "\<bar>v - of_int (\<lfloor>v / of_int g\<rfloor> * g + g)\<bar> = of_int (\<lfloor>v / of_int g\<rfloor> * g + g) - v"
    using bracket_upper [OF assms(2), of v] by simp
  have e: "(\<lfloor>v / of_int g\<rfloor> + 1) * g = \<lfloor>v / of_int g\<rfloor> * g + g"
    by (simp add: algebra_simps)
  show ?thesis
    using assms(2) unfolding scaling_round_def Let_def py_int_nonneg [OF q] e lo up
    by simp
qed

text \<open>
  For a negative value \<^verbatim>\<open>int\<close> is the ceiling: \<open>vmin\<close> is the multiple just above the
  value, it is always the nearer one, and it is what the function returns.
\<close>

lemma scaling_round_neg_eq:
  fixes v :: rat and g :: int
  assumes "v < 0" "0 < g"
  shows "scaling_round v g m = Inr (\<lceil>v / of_int g\<rceil> * g)"
proof -
  have q: "v / of_int g < 0" using assms by (simp add: divide_neg_pos)
  have pi: "py_int (v / of_int g) = \<lceil>v / of_int g\<rceil>"
    using q by (simp add: py_int_def)
  have lo: "v \<le> of_int (\<lceil>v / of_int g\<rceil> * g)"
    using ceiling_divide_upper [of "of_int g :: rat" v] assms(2) by simp
  have e: "(\<lceil>v / of_int g\<rceil> + 1) * g = \<lceil>v / of_int g\<rceil> * g + g"
    by (simp add: algebra_simps)
  have closer: "\<bar>v - of_int (\<lceil>v / of_int g\<rceil> * g)\<bar>
      < \<bar>v - of_int (\<lceil>v / of_int g\<rceil> * g + g)\<bar>"
    using lo assms(2) by simp
  have "scaling_round v g m =
      (let vmin = \<lceil>v / of_int g\<rceil> * g; vmax = \<lceil>v / of_int g\<rceil> * g + g
       in if (m \<noteq> 0 \<and> of_int vmax > m) \<or> \<bar>v - of_int vmin\<bar> < \<bar>v - of_int vmax\<bar>
          then Inr vmin else Inr vmax)"
    using assms(2) unfolding scaling_round_def Let_def pi e by simp
  also have "\<dots> = Inr (\<lceil>v / of_int g\<rceil> * g)"
    unfolding Let_def using closer by (simp only: simp_thms if_True)
  finally show ?thesis .
qed

text \<open>
  With the default bound, a value up to \<open>m\<close> is not rounded above \<open>m\<close> when \<open>m\<close> lies in
  the lower half of its bracket; and an integer \<open>m\<close> in the upper half of its bracket is
  rounded up, above itself.
\<close>

lemma scaling_round_le_halfmod:
  fixes v :: rat and g m :: int
  assumes g: "0 < g" and m0: "0 \<le> m" and le: "v \<le> of_int m"
    and half: "2 * (m mod g) < g"
    and res: "scaling_round v g 0 = Inr r"
  shows "r \<le> m"
proof (cases "0 \<le> v")
  case True
  define k where "k = \<lfloor>v / of_int g\<rfloor>"
  define j where "j = m div g"
  have mm: "0 \<le> m mod g" using g by simp
  have dm: "m = j * g + m mod g" unfolding j_def by simp
  have jg: "j * g \<le> m" using mm dm by linarith
  have "v / of_int g \<le> of_int m / of_int g"
    using le g by (simp add: divide_right_mono)
  then have "k \<le> \<lfloor>(of_int m :: rat) / of_int g\<rfloor>"
    unfolding k_def by (rule floor_mono)
  then have kj: "k \<le> j" unfolding j_def by (simp add: floor_divide_of_int_eq)
  have r: "r = (if v - of_int (k * g) < of_int (k * g + g) - v then k * g else k * g + g)"
    using res unfolding scaling_round_nonneg_eq [OF True g] k_def by simp
  show ?thesis
  proof (cases "k = j")
    case True
    from dm have "(of_int m :: rat) = of_int (j * g) + of_int (m mod g)"
      by (metis of_int_add)
    with le have "v - of_int (k * g) \<le> of_int (m mod g)" unfolding True by simp
    moreover have "(2::rat) * of_int (m mod g) < of_int g"
      using half by (metis of_int_less_iff of_int_mult of_int_numeral)
    ultimately have "v - of_int (k * g) < of_int (k * g + g) - v"
      by (simp add: algebra_simps)
    then have "r = k * g" using r by simp
    then show ?thesis using jg unfolding True by simp
  next
    case False
    with kj have "k + 1 \<le> j" by simp
    then have "(k + 1) * g \<le> j * g" using g by (simp only: mult_right_mono)
    then have "k * g + g \<le> m" using jg by (simp add: algebra_simps)
    moreover have "r \<le> k * g + g" using r g by simp
    ultimately show ?thesis by simp
  qed
next
  case False
  then have neg: "v < 0" by simp
  have r: "r = \<lceil>v / of_int g\<rceil> * g"
    using res unfolding scaling_round_neg_eq [OF neg g] by simp
  have "v / of_int g \<le> 0" using neg g by (simp add: divide_le_0_iff)
  then have "\<lceil>v / of_int g\<rceil> \<le> 0" by (simp add: ceiling_le_iff)
  then have "\<lceil>v / of_int g\<rceil> * g \<le> 0" using g by (simp add: mult_le_0_iff)
  then show ?thesis unfolding r using m0 by simp
qed

lemma scaling_round_int_rounds_up:
  fixes g m :: int
  assumes g: "0 < g" and m0: "0 \<le> m" and half: "g \<le> 2 * (m mod g)"
  shows "scaling_round (of_int m) g 0 = Inr (m - m mod g + g)"
proof -
  have v0: "(0::rat) \<le> of_int m" using m0 by simp
  have fl: "\<lfloor>(of_int m :: rat) / of_int g\<rfloor> = m div g"
    by (rule floor_divide_of_int_eq)
  have lower: "m div g * g = m - m mod g"
    by (simp add: algebra_simps minus_mod_eq_mult_div)
  have a: "(of_int m :: rat) - of_int (m - m mod g) = of_int (m mod g)" by simp
  have b: "(of_int (m - m mod g + g) :: rat) - of_int m = of_int (g - m mod g)" by simp
  have c: "\<not> (of_int (m mod g) :: rat) < of_int (g - m mod g)"
    unfolding of_int_less_iff using half by linarith
  have "\<not> (of_int m :: rat) - of_int (m - m mod g) < of_int (m - m mod g + g) - of_int m"
    unfolding a b by (rule c)
  then show ?thesis
    unfolding scaling_round_nonneg_eq [OF v0 g] fl lower by simp
qed

text \<open>
  Claim C4. For a value \<open>v \<ge> 0\<close> and a factor \<open>g > 0\<close>, with no bound in effect (the
  bound is the default 0, or the upper bracket does not exceed it), \<open>scaling_round\<close>
  returns a result \<open>r\<close>: with \<open>lower = floor (v / g) * g\<close> and \<open>upper = lower + g\<close> the
  two multiples of \<open>g\<close> that bracket \<open>v\<close>, the result is a multiple of \<open>g\<close> that is not
  negative, it is one of the two brackets, no bracket is nearer to \<open>v\<close>, and it is the
  lower bracket exactly when \<open>v\<close> is strictly nearer to it, so a tie goes to the upper
  bracket.
\<close>

theorem scaling_round_nearest:
  fixes v m :: rat and g :: int
  assumes "0 \<le> v" and "0 < g"
    and "m = 0 \<or> of_int (\<lfloor>v / of_int g\<rfloor> * g + g) \<le> m"
  shows "\<exists>r lower upper.
           scaling_round v g m = Inr r
         \<and> lower = \<lfloor>v / of_int g\<rfloor> * g \<and> upper = lower + g
         \<and> of_int lower \<le> v \<and> v < of_int upper
         \<and> 0 \<le> r \<and> g dvd r
         \<and> (r = lower \<or> r = upper)
         \<and> \<bar>v - of_int r\<bar> \<le> \<bar>v - of_int lower\<bar>
         \<and> \<bar>v - of_int r\<bar> \<le> \<bar>v - of_int upper\<bar>
         \<and> r = (if v - of_int lower < of_int upper - v then lower else upper)"
proof -
  define lower where "lower = \<lfloor>v / of_int g\<rfloor> * g"
  define upper where "upper = lower + g"
  define r where "r = (if v - of_int lower < of_int upper - v then lower else upper)"
  have lo: "of_int lower \<le> v"
    unfolding lower_def by (rule bracket_lower [OF assms(2)])
  have up: "v < of_int upper"
    unfolding upper_def lower_def by (rule bracket_upper [OF assms(2)])
  have nocap: "\<not> (m \<noteq> 0 \<and> of_int upper > m)"
    using assms(3) unfolding upper_def lower_def by auto
  have eq: "scaling_round v g m =
      Inr (if (m \<noteq> 0 \<and> of_int upper > m) \<or> v - of_int lower < of_int upper - v
           then lower else upper)"
    unfolding upper_def lower_def by (rule scaling_round_nonneg_eq [OF assms(1,2)])
  have res: "scaling_round v g m = Inr r"
    unfolding eq r_def using nocap by auto
  have k0: "0 \<le> \<lfloor>v / of_int g\<rfloor>" using assms(1,2) by simp
  have lower0: "0 \<le> lower" unfolding lower_def using k0 assms(2) by simp
  have r0: "0 \<le> r" unfolding r_def upper_def using lower0 assms(2) by simp
  have dl: "g dvd lower" unfolding lower_def by simp
  have dr: "g dvd r" unfolding r_def upper_def using dl by simp
  have near1: "\<bar>v - of_int r\<bar> \<le> \<bar>v - of_int lower\<bar>"
    unfolding r_def using lo up by simp
  have near2: "\<bar>v - of_int r\<bar> \<le> \<bar>v - of_int upper\<bar>"
    unfolding r_def using lo up by simp
  have either: "r = lower \<or> r = upper"
    unfolding r_def by simp
  show ?thesis
    using res lower_def upper_def lo up r0 dr either near1 near2 r_def by blast
qed

text \<open>
  The value 1080 lies midway between 1072 and 1088 and is rounded up to 1088.
\<close>

theorem scaling_round_nearest_witness:
  "(0::rat) \<le> 1080 \<and> (0::int) < 16
   \<and> scaling_round 1080 16 0 = Inr 1088
   \<and> \<lfloor>(1080::rat) / of_int 16\<rfloor> * 16 = 1072
   \<and> (16::int) dvd 1088
   \<and> (1080::rat) - of_int 1072 = of_int 1088 - 1080"
proof -
  have h1: "(0::rat) \<le> 1080" by simp
  have h2: "(0::int) < 16" by simp
  have h3: "(0::rat) = 0 \<or> of_int (\<lfloor>(1080::rat) / of_int 16\<rfloor> * 16 + 16) \<le> (0::rat)"
    by simp
  have ev: "scaling_round 1080 16 0 = Inr 1088" by code_simp
  have fl: "\<lfloor>(1080::rat) / of_int 16\<rfloor> * 16 = 1072" by code_simp
  from scaling_round_nearest [OF h1 h2 h3] obtain r where
    "scaling_round 1080 16 0 = Inr r" and d: "16 dvd r"
    by blast
  with ev have "r = 1088" by simp
  with d have "(16::int) dvd 1088" by simp
  with ev fl show ?thesis by simp
qed

text \<open>
  Claim C5. For a value \<open>v \<ge> 0\<close>, a factor \<open>g > 0\<close> and a positive bound \<open>m\<close>: when the
  upper bracket \<open>floor (v / g) * g + g\<close> exceeds \<open>m\<close>, \<open>scaling_round\<close> returns the lower
  bracket \<open>floor (v / g) * g\<close>, wherever \<open>v\<close> lies between the two.
\<close>

theorem scaling_round_cap:
  fixes v m :: rat and g :: int
  assumes "0 \<le> v" and "0 < g" and "0 < m"
    and "m < of_int (\<lfloor>v / of_int g\<rfloor> * g + g)"
  shows "scaling_round v g m = Inr (\<lfloor>v / of_int g\<rfloor> * g)"
  using assms(3,4) unfolding scaling_round_nonneg_eq [OF assms(1,2)] by simp

text \<open>
  The value 30 is nearer to 32 than to 16; under the bound 20 it is rounded to 16.
\<close>

theorem scaling_round_cap_witness:
  "(0::rat) \<le> 30 \<and> (0::int) < 16 \<and> (0::rat) < 20
   \<and> (20::rat) < of_int (\<lfloor>(30::rat) / of_int 16\<rfloor> * 16 + 16)
   \<and> scaling_round 30 16 20 = Inr 16
   \<and> \<bar>(30::rat) - 32\<bar> < \<bar>(30::rat) - 16\<bar>"
proof -
  have h1: "(0::rat) \<le> 30" by simp
  have h2: "(0::int) < 16" by simp
  have h3: "(0::rat) < 20" by simp
  have fl: "\<lfloor>(30::rat) / of_int 16\<rfloor> = 1" by code_simp
  have h4: "(20::rat) < of_int (\<lfloor>(30::rat) / of_int 16\<rfloor> * 16 + 16)"
    unfolding fl by simp
  from scaling_round_cap [OF h1 h2 h3 h4] have "scaling_round 30 16 20 = Inr 16"
    unfolding fl by simp
  with h4 show ?thesis by simp
qed

text \<open>
  Claim C10. The bound is not a bound on the result. For the value 50, the factor 16 and
  the bound 32, the lower bracket 48 already exceeds the bound, and \<open>scaling_round\<close>
  returns 48. A bound of exactly 0 switches the cap off: 9 is rounded up to 16 under the
  bound 0 (under the bound 1/2 it is rounded down to 0), and for every value and factor
  the result under the bound 0 is decided by the two distances alone.
\<close>

theorem scaling_round_bound_not_enforced:
  "scaling_round 50 16 32 = Inr 48 \<and> (32::rat) < of_int 48
   \<and> \<lfloor>(50::rat) / of_int 16\<rfloor> * 16 = 48
   \<and> scaling_round 9 16 0 = Inr 16 \<and> (0::rat) < of_int 16
   \<and> scaling_round 9 16 (1 / 2) = Inr 0
   \<and> (\<forall>val factor. scaling_round val factor 0 =
        (if factor = 0 then Inl ZeroDivisionError
         else if \<bar>val - of_int (py_int (val / of_int factor) * factor)\<bar>
                 < \<bar>val - of_int ((py_int (val / of_int factor) + 1) * factor)\<bar>
         then Inr (py_int (val / of_int factor) * factor)
         else Inr ((py_int (val / of_int factor) + 1) * factor)))"
proof -
  have a: "scaling_round 50 16 32 = Inr 48" by code_simp
  have b: "\<lfloor>(50::rat) / of_int 16\<rfloor> * 16 = 48" by code_simp
  have c: "scaling_round 9 16 0 = Inr 16" by code_simp
  have d: "scaling_round 9 16 (1 / 2) = Inr 0" by code_simp
  have e: "scaling_round val factor 0 =
        (if factor = 0 then Inl ZeroDivisionError
         else if \<bar>val - of_int (py_int (val / of_int factor) * factor)\<bar>
                 < \<bar>val - of_int ((py_int (val / of_int factor) + 1) * factor)\<bar>
         then Inr (py_int (val / of_int factor) * factor)
         else Inr ((py_int (val / of_int factor) + 1) * factor))" for val factor
    unfolding scaling_round_def Let_def by simp
  from a b c d e show ?thesis by simp
qed

section \<open>Properties of the geometry\<close>

text \<open>What the two assertions leave: an unrounded size within the canvas.\<close>

lemma fit_unrounded_bounds:
  assumes "fit_unrounded cw ch vw vh = Inr (w, h)"
  shows "w \<le> of_int vw \<and> h \<le> of_int vh"
  using assms unfolding fit_unrounded_def Let_def
  by (auto split: if_splits sum.splits prod.splits)

text \<open>
  In exact arithmetic and for positive dimensions, an assertion fails exactly for a
  portrait cover whose aspect ratio exceeds the canvas's: the test of line 80 sends
  every portrait cover to the height branch, which then overflows the width of a
  narrower canvas. (In binary64 arithmetic an assertion can fail on other inputs too,
  see \<open>binary64_differs\<close> below.)
\<close>

lemma fit_unrounded_assertion_iff:
  assumes "0 < cw" "0 < ch" "0 < vw" "0 < vh"
  shows "fit_unrounded cw ch vw vh = Inl AssertionError
           \<longleftrightarrow> cw < ch \<and> of_int vw / of_int vh < cw / ch"
proof (cases "fits_width cw ch vw vh")
  case True
  then have ge: "ch \<le> cw" and gt: "of_int vw / of_int vh < cw / ch"
    unfolding fits_width_def by simp_all
  have ca: "cw / ch \<noteq> 0" using assms(1,2) by simp
  have "of_int vw < (cw / ch) * of_int vh"
    using gt assms(4) by (simp add: pos_divide_less_eq)
  then have "of_int vw / (cw / ch) \<le> of_int vh"
    using assms(1,2) by (simp add: field_simps)
  then have "fit_unrounded cw ch vw vh = Inr (of_int vw, of_int vw / (cw / ch))"
    using True ca assms(2,4) unfolding fit_unrounded_def Let_def by simp
  with ge show ?thesis by simp
next
  case False
  have eq: "fit_unrounded cw ch vw vh =
      (if \<not> of_int vh * (cw / ch) \<le> of_int vw then Inl AssertionError
       else Inr (of_int vh * (cw / ch), of_int vh))"
    using False assms(2,4) unfolding fit_unrounded_def Let_def by simp
  have iff: "of_int vh * (cw / ch) \<le> of_int vw \<longleftrightarrow> cw / ch \<le> of_int vw / of_int vh"
    using assms(4) by (simp add: pos_le_divide_eq mult.commute)
  show ?thesis
  proof (cases "cw < ch")
    case True
    then show ?thesis unfolding eq iff by auto
  next
    case False
    with \<open>\<not> fits_width cw ch vw vh\<close> have "cw / ch \<le> of_int vw / of_int vh"
      unfolding fits_width_def by simp
    with False show ?thesis unfolding eq iff by simp
  qed
qed

text \<open>
  Claim C1. The claim is that for positive cover and canvas dimensions the two assertions
  before the rounding never fail. The program does not keep it: a 500 by 1000 cover on a
  100 by 1000 canvas is a portrait cover, so the height is fitted, the unrounded width is
  1000 * 0.5 = 500, and \<^verbatim>\<open>assert image_width <= video_width\<close> fails.
\<close>

theorem cover_assertion_fails:
  "fit_unrounded 500 1000 100 1000 = Inl AssertionError
   \<and> get_cover_filter_string (still_env 500 1000) cover_filename 100 1000 = Inl AssertionError"
proof -
  have u: "fit_unrounded 500 1000 100 1000 = Inl AssertionError" by code_simp
  have "get_cover_filter_string (still_env 500 1000) cover_filename 100 1000 = Inl AssertionError"
    unfolding get_cover_filter_string_def still_env_def by (simp add: fit_rounded_def u)
  with u show ?thesis by simp
qed

text \<open>
  Claim C2. The claim is that the rounded width and height never exceed the canvas width
  and height. The program does not keep it: a 2000 by 1000 cover on a 1290 by 720 canvas
  is fitted to the width 1290, both assertions pass, and \<^verbatim>\<open>scaling_round\<close>, called
  without its bound, rounds 1290 up to 1296. The filter string scales the cover to a
  width of 1296 and pads it to a width of 1290, at the offset -3.
\<close>

theorem fit_rounded_exceeds_canvas:
  "fits_width 2000 1000 1290 720
   \<and> fit_unrounded 2000 1000 1290 720 = Inr (1290, 645)
   \<and> scaling_round 1290 16 0 = Inr 1296
   \<and> fit_rounded 2000 1000 1290 720 = Inr (1296, 640)
   \<and> \<not> (1296::int) \<le> 1290
   \<and> get_cover_filter_string (still_env 2000 1000) cover_filename 1290 720
       = Inr ''scale=1296:640,pad=1290:720:-3:40''"
proof -
  have a: "fits_width 2000 1000 1290 720" by code_simp
  have b: "fit_unrounded 2000 1000 1290 720 = Inr (1290, 645)" by code_simp
  have s: "scaling_round 1290 16 0 = Inr 1296" by code_simp
  have c: "fit_rounded 2000 1000 1290 720 = Inr (1296, 640)" by code_simp
  have f: "filter_string 1290 720 1296 640 = ''scale=1296:640,pad=1290:720:-3:40''"
    by code_simp
  have g: "get_cover_filter_string (still_env 2000 1000) cover_filename 1290 720
       = Inr ''scale=1296:640,pad=1290:720:-3:40''"
    unfolding get_cover_filter_string_def still_env_def by (simp add: c f)
  from a b s c g show ?thesis by simp
qed

text \<open>
  What does hold of the rounded size: on each axis, it stays within a canvas dimension
  that is not negative and leaves a remainder below 8 when divided by 16 (as 1280 and
  720 do). When the remainder is 8 or more, the fitted axis, whose unrounded size is the
  canvas dimension itself, is rounded above it (\<open>scaling_round_int_rounds_up\<close>).
\<close>

lemma fit_rounded_axis_bound:
  assumes res: "fit_rounded cw ch vw vh = Inr (iw, ih)"
  shows "(0 \<le> vw \<and> vw mod 16 < 8 \<longrightarrow> iw \<le> vw) \<and> (0 \<le> vh \<and> vh mod 16 < 8 \<longrightarrow> ih \<le> vh)"
proof -
  from res obtain w h where u: "fit_unrounded cw ch vw vh = Inr (w, h)"
    and rw: "scaling_round w 16 0 = Inr iw" and rh: "scaling_round h 16 0 = Inr ih"
    unfolding fit_rounded_def by (auto split: sum.splits prod.splits)
  from fit_unrounded_bounds [OF u] have bw: "w \<le> of_int vw" and bh: "h \<le> of_int vh"
    by simp_all
  have "iw \<le> vw" if "0 \<le> vw" "vw mod 16 < 8"
    using that by (intro scaling_round_le_halfmod [OF _ _ bw _ rw]) simp_all
  moreover have "ih \<le> vh" if "0 \<le> vh" "vh mod 16 < 8"
    using that by (intro scaling_round_le_halfmod [OF _ _ bh _ rh]) simp_all
  ultimately show ?thesis by blast
qed

lemma square_not_fits_width:
  assumes "0 < c" "0 < vh" "vh \<le> vw"
  shows "\<not> fits_width c c vw vh"
proof -
  have "(1::rat) \<le> of_int vw / of_int vh" using assms(2,3) by (simp add: pos_le_divide_eq)
  then show ?thesis using assms(1) unfolding fits_width_def by simp
qed

text \<open>
  Claim C3, as amended. A square cover on a landscape canvas is fitted to the height, not
  to the width: its aspect ratio 1 does not exceed the canvas's, so the test of line 80
  fails, and the unrounded height and width both equal the canvas height.
\<close>

theorem square_cover_fits_height:
  assumes "0 < c" and "0 < vh" and "vh < vw"
  shows "\<not> fits_width c c vw vh \<and> fit_unrounded c c vw vh = Inr (of_int vh, of_int vh)"
proof -
  have nf: "\<not> fits_width c c vw vh"
    using assms by (intro square_not_fits_width) simp_all
  have "fit_unrounded c c vw vh = Inr (of_int vh, of_int vh)"
    using assms nf unfolding fit_unrounded_def Let_def by simp
  with nf show ?thesis by simp
qed

theorem square_cover_fits_height_witness:
  "(0::rat) < 1000 \<and> (0::int) < 720 \<and> (720::int) < 1280
   \<and> \<not> fits_width 1000 1000 1280 720 \<and> fit_unrounded 1000 1000 1280 720 = Inr (720, 720)"
  using square_cover_fits_height [of 1000 720 1280] by simp

text \<open>
  The claim as stated fails for a 1000 by 1000 cover on the 1280 by 720 canvas: the
  unrounded width is 720, not 1280.
\<close>

theorem square_cover_not_width:
  "(1000::rat) = 1000 \<and> (0::rat) < 1000 \<and> (720::int) < 1280
   \<and> fit_unrounded 1000 1000 1280 720 = Inr (720, 720) \<and> (720::rat) \<noteq> of_int 1280"
proof -
  have "fit_unrounded 1000 1000 1280 720 = Inr (720, 720)" by code_simp
  then show ?thesis by simp
qed

text \<open>
  Claim C6. A 3000 by 2000 cover on the 1280 by 720 canvas: the test of line 80 fails, the
  height is fitted, the unrounded size is 1080 by 720, the rounded size is 1088 by 720,
  the offsets are 96 and 0, and the filter string is
  \<^verbatim>\<open>scale=1088:720,pad=1280:720:96:0\<close>.
\<close>

theorem example_3000x2000:
  "\<not> fits_width 3000 2000 1280 720
   \<and> fit_unrounded 3000 2000 1280 720 = Inr (1080, 720)
   \<and> fit_rounded 3000 2000 1280 720 = Inr (1088, 720)
   \<and> pad_offset 1280 1088 = 96 \<and> pad_offset 720 720 = 0
   \<and> get_cover_filter_string (still_env 3000 2000) cover_filename 1280 720
       = Inr ''scale=1088:720,pad=1280:720:96:0''"
proof -
  have a: "\<not> fits_width 3000 2000 1280 720" by code_simp
  have b: "fit_unrounded 3000 2000 1280 720 = Inr (1080, 720)" by code_simp
  have c: "fit_rounded 3000 2000 1280 720 = Inr (1088, 720)" by code_simp
  have d: "pad_offset 1280 1088 = 96" by code_simp
  have e: "pad_offset 720 720 = 0" by code_simp
  have f: "filter_string 1280 720 1088 720 = ''scale=1088:720,pad=1280:720:96:0''"
    by code_simp
  have g: "get_cover_filter_string (still_env 3000 2000) cover_filename 1280 720
       = Inr ''scale=1088:720,pad=1280:720:96:0''"
    unfolding get_cover_filter_string_def still_env_def by (simp add: c f)
  from a b c d e g show ?thesis by simp
qed

text \<open>
  Claim C9. A 2000 by 10 cover on the 1280 by 720 canvas: the width is fitted, the
  unrounded height is 6.4, below half the factor, and is rounded to 0; the filter string
  starts with the scale stage \<^verbatim>\<open>scale=1280:0\<close>.
\<close>

theorem example_2000x10:
  "fits_width 2000 10 1280 720
   \<and> fit_unrounded 2000 10 1280 720 = Inr (1280, 32 / 5)
   \<and> (32 / 5 :: rat) < 16 / 2
   \<and> fit_rounded 2000 10 1280 720 = Inr (1280, 0)
   \<and> get_cover_filter_string (still_env 2000 10) cover_filename 1280 720
       = Inr ''scale=1280:0,pad=1280:720:0:360''"
proof -
  have a: "fits_width 2000 10 1280 720" by code_simp
  have b: "fit_unrounded 2000 10 1280 720 = Inr (1280, 32 / 5)" by code_simp
  have c: "fit_rounded 2000 10 1280 720 = Inr (1280, 0)" by code_simp
  have f: "filter_string 1280 720 1280 0 = ''scale=1280:0,pad=1280:720:0:360''"
    by code_simp
  have g: "get_cover_filter_string (still_env 2000 10) cover_filename 1280 720
       = Inr ''scale=1280:0,pad=1280:720:0:360''"
    unfolding get_cover_filter_string_def still_env_def by (simp add: c f)
  from a b c g show ?thesis by simp
qed

subsection \<open>Exact and binary64 arithmetic compared\<close>

text \<open>
  On the inputs evaluated above, binary64 arithmetic gives what exact arithmetic gives:
  the same error for the 500 by 1000 cover on the 100 by 1000 canvas, and the same sizes
  for the other covers.
\<close>

lemma binary64_agrees:
  "fit_rounded_binary64 500 1000 100 1000 = Inl AssertionError
   \<and> fit_rounded 500 1000 100 1000 = Inl AssertionError
   \<and> fit_rounded_binary64 2000 1000 1290 720 = Inr (1296, 640)
   \<and> fit_rounded 2000 1000 1290 720 = Inr (1296, 640)
   \<and> fit_unrounded_binary64 1000 1000 1280 720 = Inr (PyFloat 720, PyInt 720)
   \<and> fit_unrounded 1000 1000 1280 720 = Inr (720, 720)
   \<and> fit_unrounded_binary64 3000 2000 1280 720 = Inr (PyFloat 1080, PyInt 720)
   \<and> fit_unrounded 3000 2000 1280 720 = Inr (1080, 720)
   \<and> fit_rounded_binary64 3000 2000 1280 720 = Inr (1088, 720)
   \<and> fit_rounded 3000 2000 1280 720 = Inr (1088, 720)
   \<and> fit_rounded_binary64 2000 10 1280 720 = Inr (1280, 0)
   \<and> fit_rounded 2000 10 1280 720 = Inr (1280, 0)"
  by code_simp

text \<open>
  They differ where a product or quotient is not exact. For an 800 by 352 cover on an
  800 by 352 canvas the product 352 * (800 / 352) is rounded to a float just above 800,
  and the assertion on the width fails. For 700 by 1000 and 1600 by 290 covers on the
  1280 by 720 canvas the unrounded sizes 504 and 232 are ties between two multiples of
  16; the floats just below them are rounded down where the exact values go up.
\<close>

lemma binary64_differs:
  "fit_unrounded_binary64 800 352 800 352 = Inl AssertionError
   \<and> fit_unrounded 800 352 800 352 = Inr (800, 352)
   \<and> fit_rounded_binary64 700 1000 1280 720 = Inr (496, 720)
   \<and> fit_rounded 700 1000 1280 720 = Inr (512, 720)
   \<and> fit_rounded_binary64 1600 290 1280 720 = Inr (1280, 224)
   \<and> fit_rounded 1600 290 1280 720 = Inr (1280, 240)"
  by code_simp

section \<open>Properties of the composition invoker\<close>

lemma endswith_iff: "endswith s suffix \<longleftrightarrow> (\<exists>p. s = p @ suffix)"
proof
  assume "endswith s suffix"
  then have "s = take (length s - length suffix) s @ suffix"
    unfolding endswith_def by (metis append_take_drop_id)
  then show "\<exists>p. s = p @ suffix" ..
next
  assume "\<exists>p. s = p @ suffix"
  then show "endswith s suffix" unfolding endswith_def by auto
qed

text \<open>
  Claim C7. The argument list handed to the composition tool has nineteen leading
  arguments in which no audio codec is chosen; what follows them depends on the audio
  path only through its suffix: \<^verbatim>\<open>-c:a copy\<close> when the path ends in \<^verbatim>\<open>.mp3\<close>, and
  \<^verbatim>\<open>-c:a aac -strict experimental -b:a 320k\<close> for every other path; then
  \<^verbatim>\<open>-shortest\<close> and the output path.
\<close>

theorem audio_codec_by_suffix:
  "take 19 (ffmpeg_args ffmpeg_path cover_path audio_path width height filter_str output_path) =
     [ffmpeg_path @ ''ffmpeg'', ''-loop'', ''1'', ''-i'', cover_path, ''-i'', audio_path,
      ''-r:v'', ''10'', ''-s:v'', str_int width @ ''x'' @ str_int height,
      ''-c:v'', ''libx264'', ''-crf:v'', ''22'', ''-filter:v'', filter_str,
      ''-pix_fmt'', ''yuv420p'']
   \<and> drop 19 (ffmpeg_args ffmpeg_path cover_path audio_path width height filter_str output_path) =
     (if (\<exists>stem. audio_path = stem @ ''.mp3'')
      then [''-c:a'', ''copy'']
      else [''-c:a'', ''aac'', ''-strict'', ''experimental'', ''-b:a'', ''320k''])
     @ [''-shortest'', output_path]"
  unfolding ffmpeg_args_def Let_def endswith_iff by simp

theorem audio_codec_by_suffix_witness:
  "drop 19 (ffmpeg_args [] ''cover.png'' ''song.mp3'' 1280 720 ''F'' ''song.mp4'') =
     [''-c:a'', ''copy'', ''-shortest'', ''song.mp4'']
   \<and> drop 19 (ffmpeg_args [] ''cover.png'' ''song.mp3.wav'' 1280 720 ''F'' ''song.mp4'') =
     [''-c:a'', ''aac'', ''-strict'', ''experimental'', ''-b:a'', ''320k'',
      ''-shortest'', ''song.mp4'']"
proof -
  have a: "\<exists>stem. ''song.mp3'' = stem @ ''.mp3''"
    by (rule exI [of _ "''song''"]) simp
  have b: "\<not> (\<exists>stem. ''song.mp3.wav'' = stem @ ''.mp3'')"
    using endswith_iff [of "''song.mp3.wav''" "''.mp3''"] by (simp add: endswith_def)
  show ?thesis
    using audio_codec_by_suffix [of "[]" "''cover.png''" "''song.mp3''" 1280 720 "''F''" "''song.mp4''"]
      audio_codec_by_suffix [of "[]" "''cover.png''" "''song.mp3.wav''" 1280 720 "''F''" "''song.mp4''"]
      a b
    by (simp only: if_True if_False append.simps simp_thms)
qed

lemma rev_takeWhile_all:
  assumes "c \<notin> set xs"
  shows "rev (takeWhile (\<lambda>x. x \<noteq> c) (rev xs)) = xs"
proof -
  have "takeWhile (\<lambda>x. x \<noteq> c) (rev xs) = rev xs" using assms by auto
  then show ?thesis by (simp only: rev_rev_ident)
qed

lemma basename_append:
  assumes "d = [] \<or> last d = CHR ''/''" and "CHR ''/'' \<notin> set b"
  shows "basename (d @ b) = b"
proof (cases "d = []")
  case True
  then show ?thesis
    unfolding basename_def using rev_takeWhile_all [OF assms(2)] by simp
next
  case False
  with assms(1) have l: "last d = CHR ''/''" by simp
  have "rev (d @ b) = rev b @ (last d # rev (butlast d))"
    using False by (metis append_butlast_last_id rev.simps(2) rev_append rev_swap)
  then have "takeWhile (\<lambda>c. c \<noteq> CHR ''/'') (rev (d @ b)) = takeWhile (\<lambda>c. c \<noteq> CHR ''/'') (rev b)"
    using l by (simp only: takeWhile_tail simp_thms)
  then show ?thesis
    unfolding basename_def using rev_takeWhile_all [OF assms(2)] by (simp only:)
qed

lemma basename_plain: "CHR ''/'' \<notin> set b \<Longrightarrow> basename b = b"
  using basename_append [of "[]" b] by simp

lemma splitext_ext:
  assumes s: "CHR ''/'' \<notin> set stem" and e: "CHR ''/'' \<notin> set ext"
    and dot: "CHR ''.'' \<notin> set ext" and nd: "\<exists>c\<in>set stem. c \<noteq> CHR ''.''"
  shows "splitext (stem @ ''.'' @ ext) = (stem, ''.'' @ ext)"
proof -
  let ?p = "stem @ ''.'' @ ext"
  have b: "basename ?p = ?p" using s e by (intro basename_plain) simp
  have "takeWhile (\<lambda>c. c \<noteq> CHR ''.'') (rev ?p) = takeWhile (\<lambda>c. c \<noteq> CHR ''.'') (rev ext)"
    by (simp add: takeWhile_tail)
  then have x: "rev (takeWhile (\<lambda>c. c \<noteq> CHR ''.'') (rev ?p)) = ext"
    using rev_takeWhile_all [OF dot] by (simp only:)
  have m: "List.member ?p (CHR ''.'')" by simp
  have ex: "list_ex (\<lambda>c. c \<noteq> CHR ''.'') stem" using nd by (simp add: list_ex_iff)
  show ?thesis
    unfolding splitext_def Let_def b x using m ex by simp
qed

lemma splitext_noext:
  assumes "CHR ''/'' \<notin> set b" and "CHR ''.'' \<notin> set b"
  shows "splitext b = (b, [])"
  using assms unfolding splitext_def Let_def by (simp add: basename_plain)

lemma default_output_path_ext:
  assumes "d = [] \<or> last d = CHR ''/''"
    and "CHR ''/'' \<notin> set stem" and "CHR ''/'' \<notin> set ext"
    and "CHR ''.'' \<notin> set ext" and "\<exists>c\<in>set stem. c \<noteq> CHR ''.''"
  shows "default_output_path (d @ stem @ ''.'' @ ext) = stem @ ''.mp4''"
proof -
  have "basename (d @ stem @ ''.'' @ ext) = stem @ ''.'' @ ext"
    using assms(1,2,3) by (intro basename_append) simp_all
  then show ?thesis
    unfolding default_output_path_def Let_def using splitext_ext [OF assms(2-5)] by simp
qed

lemma default_output_path_noext:
  assumes "d = [] \<or> last d = CHR ''/''"
    and "CHR ''/'' \<notin> set b" and "CHR ''.'' \<notin> set b"
  shows "default_output_path (d @ b) = b @ ''.mp4''"
proof -
  have "basename (d @ b) = b" using assms(1,2) by (rule basename_append)
  then show ?thesis
    unfolding default_output_path_def Let_def using splitext_noext [OF assms(2,3)] by simp
qed

lemma process_default_result:
  assumes "output_path = None \<or> output_path = Some []"
    and "process e cover_path audio_path output_path width height = Inr out"
  shows "out = default_output_path audio_path"
  using assms unfolding process_def Let_def
  by (auto split: sum.splits if_splits)

text \<open>
  Claim C8. When no output path is supplied (\<^verbatim>\<open>None\<close>, or the empty string) and
  \<^verbatim>\<open>process\<close> returns, the path it returns is the root of the audio path's base name
  followed by \<^verbatim>\<open>.mp4\<close>. For an audio path made of a directory part, a name and an
  extension, that is the name followed by \<^verbatim>\<open>.mp4\<close>; for an audio path whose base name
  has no dot, it is the base name followed by \<^verbatim>\<open>.mp4\<close>.
\<close>

theorem process_default_output_path:
  assumes supplied: "output_path = None \<or> output_path = Some []"
    and ok: "process e cover_path audio_path output_path width height = Inr out"
  shows "out = fst (splitext (basename audio_path)) @ ''.mp4''
    \<and> (\<forall>d stem ext.
          audio_path = d @ stem @ ''.'' @ ext
          \<and> (d = [] \<or> last d = CHR ''/'')
          \<and> CHR ''/'' \<notin> set stem \<and> CHR ''/'' \<notin> set ext
          \<and> CHR ''.'' \<notin> set ext \<and> (\<exists>c\<in>set stem. c \<noteq> CHR ''.'')
          \<longrightarrow> out = stem @ ''.mp4'')
    \<and> (\<forall>d b.
          audio_path = d @ b
          \<and> (d = [] \<or> last d = CHR ''/'')
          \<and> CHR ''/'' \<notin> set b \<and> CHR ''.'' \<notin> set b
          \<longrightarrow> out = b @ ''.mp4'')"
proof -
  have out: "out = default_output_path audio_path"
    by (rule process_default_result [OF supplied ok])
  have one: "out = fst (splitext (basename audio_path)) @ ''.mp4''"
    unfolding out default_output_path_def Let_def by simp
  have two: "out = stem @ ''.mp4''"
    if "audio_path = d @ stem @ ''.'' @ ext" "d = [] \<or> last d = CHR ''/''"
      "CHR ''/'' \<notin> set stem" "CHR ''/'' \<notin> set ext"
      "CHR ''.'' \<notin> set ext" "\<exists>c\<in>set stem. c \<noteq> CHR ''.''" for d stem ext
    unfolding out that(1) by (rule default_output_path_ext [OF that(2-6)])
  have three: "out = b @ ''.mp4''"
    if "audio_path = d @ b" "d = [] \<or> last d = CHR ''/''"
      "CHR ''/'' \<notin> set b" "CHR ''.'' \<notin> set b" for d b
    unfolding out that(1) by (rule default_output_path_noext [OF that(2-4)])
  from one two three show ?thesis by blast
qed

text \<open>
  With a 3000 by 2000 cover and a composition tool that succeeds, \<^verbatim>\<open>song.wav\<close> and
  \<^verbatim>\<open>music/song.wav\<close> both give \<^verbatim>\<open>song.mp4\<close>.
\<close>

theorem process_default_output_path_witness:
  "process (still_env 3000 2000) ''cover.png'' ''music/song.wav'' None 1280 720 = Inr ''song.mp4''
   \<and> ''song.mp4'' = fst (splitext (basename ''music/song.wav'')) @ ''.mp4''
   \<and> ''music/song.wav'' = ''music/'' @ ''song'' @ ''.'' @ ''wav''
   \<and> last ''music/'' = CHR ''/''
   \<and> CHR ''/'' \<notin> set ''song'' \<and> CHR ''/'' \<notin> set ''wav'' \<and> CHR ''.'' \<notin> set ''wav''
   \<and> (\<exists>c\<in>set ''song''. c \<noteq> CHR ''.'')
   \<and> ''song.mp4'' = ''song'' @ ''.mp4''
   \<and> process (still_env 3000 2000) ''cover.png'' ''song.wav'' None 1280 720 = Inr ''song.mp4''"
proof -
  have ok: "process (still_env 3000 2000) ''cover.png'' ''music/song.wav'' None 1280 720
      = Inr ''song.mp4''"
    by code_simp
  have ok2: "process (still_env 3000 2000) ''cover.png'' ''song.wav'' None 1280 720
      = Inr ''song.mp4''"
    by code_simp
  have none: "(None :: string option) = None \<or> (None :: string option) = Some []"
    by simp
  have shape: "''music/song.wav'' = ''music/'' @ ''song'' @ ''.'' @ ''wav''
      \<and> (''music/'' = [] \<or> last ''music/'' = CHR ''/'')
      \<and> CHR ''/'' \<notin> set ''song'' \<and> CHR ''/'' \<notin> set ''wav'' \<and> CHR ''.'' \<notin> set ''wav''
      \<and> (\<exists>c\<in>set ''song''. c \<noteq> CHR ''.'')"
    by simp
  note inst = process_default_output_path [OF none ok]
  from inst have root: "''song.mp4'' = fst (splitext (basename ''music/song.wav'')) @ ''.mp4''"
    by (rule conjunct1)
  from inst have "\<forall>d stem ext.
          ''music/song.wav'' = d @ stem @ ''.'' @ ext
          \<and> (d = [] \<or> last d = CHR ''/'')
          \<and> CHR ''/'' \<notin> set stem \<and> CHR ''/'' \<notin> set ext
          \<and> CHR ''.'' \<notin> set ext \<and> (\<exists>c\<in>set stem. c \<noteq> CHR ''.'')
          \<longrightarrow> ''song.mp4'' = stem @ ''.mp4''"
    by (rule conjunct2 [THEN conjunct1])
  with shape have name: "''song.mp4'' = ''song'' @ ''.mp4''" by blast
  have slash: "last ''music/'' = CHR ''/''" by simp
  from ok ok2 root name shape slash show ?thesis by blast
qed

end
